theory Spec2Isabelle
  imports Main "HOL-Library.Word"
begin

unbundle bit_operations_syntax

section \<open>Python values as \<open>json.load\<close> returns them\<close>

text \<open>
  \<open>Scripts/patch-openapi-spec.py\<close> works on the value that \<open>json.load\<close> builds:
  \<open>None\<close>, \<open>bool\<close>, \<open>int\<close>, \<open>float\<close>, \<open>str\<close>, \<open>list\<close> and \<open>dict\<close> with
  \<open>str\<close> keys.  A \<open>dict\<close> keeps its insertion order, so it is an association list
  (\<open>json.load\<close> never builds one with a repeated key; the lookup below reads the first
  binding and the deletion removes every binding, so both agree with Python on every
  value that can be loaded and stay meaningful on all others).  A \<open>float\<close> is its
  IEEE 754 double bit pattern; an \<open>int\<close> is unbounded.
\<close>

datatype pyval =
    PNone
  | PBool bool
  | PInt int
  | PFloat "64 word"
  | PStr string
  | PList "pyval list"
  | PDict "(string \<times> pyval) list"

datatype error =
    FileNotFoundError
  | PermissionError
  | JSONDecodeError
  | AttributeError
  | TypeError
  | KeyError

type_synonym pydict = "(string \<times> pyval) list"

definition dict_get :: "pydict \<Rightarrow> string \<Rightarrow> pyval option" where
  "dict_get kvs k = map_of kvs k"

definition dict_del :: "pydict \<Rightarrow> string \<Rightarrow> pydict" where
  "dict_del kvs k = filter (\<lambda>kv. fst kv \<noteq> k) kvs"

text \<open>Storing under a key that is present keeps the key's position.\<close>

fun dict_set :: "pydict \<Rightarrow> string \<Rightarrow> pyval \<Rightarrow> pydict" where
  "dict_set [] k v = [(k, v)]"
| "dict_set ((k', v') # kvs) k v =
     (if k' = k then (k, v) # kvs else (k', v') # dict_set kvs k v)"

subsection \<open>The operations of Python that the script applies to a loaded value\<close>

text \<open>\<open>x.get(k, default)\<close>: only a \<open>dict\<close> has the attribute \<open>get\<close>.\<close>

fun py_get :: "pyval \<Rightarrow> string \<Rightarrow> pyval \<Rightarrow> error + pyval" where
  "py_get (PDict kvs) k dflt = Inr (case dict_get kvs k of None \<Rightarrow> dflt | Some v \<Rightarrow> v)"
| "py_get _ k dflt = Inl AttributeError"

text \<open>\<open>s in t\<close> on two \<open>str\<close>: \<open>s\<close> occurs in \<open>t\<close> as a contiguous run.\<close>

fun str_contains :: "string \<Rightarrow> string \<Rightarrow> bool" where
  "str_contains [] s = (s = [])"
| "str_contains (c # t) s = (take (length s) (c # t) = s \<or> str_contains t s)"

text \<open>
  \<open>k in x\<close> for a \<open>str\<close> \<open>k\<close>: key membership on a \<open>dict\<close>, element equality on a
  \<open>list\<close>, substring on a \<open>str\<close>; \<open>None\<close>, \<open>bool\<close>, \<open>int\<close> and \<open>float\<close> are not
  iterable and raise \<open>TypeError\<close>.
\<close>

fun py_in :: "string \<Rightarrow> pyval \<Rightarrow> error + bool" where
  "py_in k (PDict kvs) = Inr (dict_get kvs k \<noteq> None)"
| "py_in k (PList xs) = Inr (PStr k \<in> set xs)"
| "py_in k (PStr s) = Inr (str_contains s k)"
| "py_in k _ = Inl TypeError"

text \<open>
  \<open>x[k]\<close> for a \<open>str\<close> \<open>k\<close>: a \<open>dict\<close> returns the value or raises \<open>KeyError\<close>; a
  \<open>list\<close> and a \<open>str\<close> take integer indices only, the other values are not
  subscriptable.
\<close>

fun py_getitem :: "pyval \<Rightarrow> string \<Rightarrow> error + pyval" where
  "py_getitem (PDict kvs) k = (case dict_get kvs k of None \<Rightarrow> Inl KeyError | Some v \<Rightarrow> Inr v)"
| "py_getitem _ k = Inl TypeError"

text \<open>\<open>del x[k]\<close> for a \<open>str\<close> \<open>k\<close>.\<close>

fun py_delitem :: "pyval \<Rightarrow> string \<Rightarrow> error + pyval" where
  "py_delitem (PDict kvs) k =
     (if dict_get kvs k = None then Inl KeyError else Inr (PDict (dict_del kvs k)))"
| "py_delitem _ k = Inl TypeError"

text \<open>
  \<open>v == False\<close>.  \<open>bool\<close> is a subclass of \<open>int\<close> and \<open>False\<close> is the number 0, so
  the comparison is numeric: it holds for \<open>False\<close>, for the \<open>int\<close> 0 and for the
  \<open>float\<close>s 0.0 and -0.0 (every bit but the sign bit is clear), and for nothing else.
\<close>

definition float_is_zero :: "64 word \<Rightarrow> bool" where
  "float_is_zero w = (w AND 0x7FFFFFFFFFFFFFFF = 0)"

fun py_eq_False :: "pyval \<Rightarrow> bool" where
  "py_eq_False (PBool b) = (\<not> b)"
| "py_eq_False (PInt i) = (i = 0)"
| "py_eq_False (PFloat w) = float_is_zero w"
| "py_eq_False _ = False"

text \<open>\<open>sep.join(xs)\<close>.\<close>

fun join :: "string \<Rightarrow> string list \<Rightarrow> string" where
  "join sep [] = []"
| "join sep [x] = x"
| "join sep (x # y # ys) = x @ sep @ join sep (y # ys)"

section \<open>The script\<close>

definition SCHEMAS_TO_PATCH :: "string list" where
  "SCHEMAS_TO_PATCH =
     [''AIIdentificationInput'', ''IdentificationDataInput'',
      ''CardDetailsInput'', ''IdentifyCardResponseInput'']"

subsection \<open>The loop over the allow-list\<close>

text \<open>
  One pass of the body of \<open>for schema_name in SCHEMAS_TO_PATCH\<close>.  The loop state is
  the value bound to \<open>schemas\<close> and the list \<open>patched\<close>.  \<open>schema\<close> is the very
  object stored in \<open>schemas\<close>, so \<open>del schema[...]\<close> changes \<open>schemas\<close>: the model
  stores the shortened entry back under its name.
\<close>

definition store_entry :: "pyval \<Rightarrow> string \<Rightarrow> pyval \<Rightarrow> pyval" where
  "store_entry schemas k v =
     (case schemas of PDict kvs \<Rightarrow> PDict (dict_set kvs k v) | _ \<Rightarrow> schemas)"

definition patch_step :: "string \<Rightarrow> pyval \<times> string list \<Rightarrow> error + pyval \<times> string list" where
  "patch_step schema_name st =
     (case st of (schemas, patched) \<Rightarrow>
        (case py_in schema_name schemas of
           Inl e \<Rightarrow> Inl e
         | Inr False \<Rightarrow> Inr (schemas, patched)
         | Inr True \<Rightarrow>
             (case py_getitem schemas schema_name of
                Inl e \<Rightarrow> Inl e
              | Inr schema \<Rightarrow>
                  (case py_get schema ''additionalProperties'' PNone of
                     Inl e \<Rightarrow> Inl e
                   | Inr v \<Rightarrow>
                       if py_eq_False v then
                         (case py_delitem schema ''additionalProperties'' of
                            Inl e \<Rightarrow> Inl e
                          | Inr schema' \<Rightarrow>
                              Inr (store_entry schemas schema_name schema',
                                   patched @ [schema_name]))
                       else Inr (schemas, patched)))))"

fun patch_loop :: "string list \<Rightarrow> pyval \<times> string list \<Rightarrow> error + pyval \<times> string list" where
  "patch_loop [] st = Inr st"
| "patch_loop (n # ns) st =
     (case patch_step n st of Inl e \<Rightarrow> Inl e | Inr st' \<Rightarrow> patch_loop ns st')"

subsection \<open>From the loaded document to the document that is written\<close>

text \<open>
  \<open>schemas = spec.get("components", {}).get("schemas", {})\<close> is the object stored in
  \<open>spec\<close> when both keys are present, and a fresh empty \<open>dict\<close> otherwise.  In the
  first case the deletions of the loop are deletions inside \<open>spec\<close>; in the second the
  loop finds no name and \<open>spec\<close> is what it was.  \<open>write_back\<close> is \<open>spec\<close> after the
  loop, given the final value of \<open>schemas\<close>.
\<close>

definition write_back :: "pyval \<Rightarrow> pyval \<Rightarrow> pyval" where
  "write_back spec schemas' =
     (case spec of
        PDict root \<Rightarrow>
          (case dict_get root ''components'' of
             Some (PDict comps) \<Rightarrow>
               (case dict_get comps ''schemas'' of
                  Some _ \<Rightarrow>
                    PDict (dict_set root ''components''
                      (PDict (dict_set comps ''schemas'' schemas')))
                | None \<Rightarrow> spec)
           | _ \<Rightarrow> spec)
      | _ \<Rightarrow> spec)"

text \<open>Lines 39 to 47: the document after the loop, and \<open>patched\<close>.\<close>

definition patch_document :: "pyval \<Rightarrow> error + pyval \<times> string list" where
  "patch_document spec =
     (case py_get spec ''components'' (PDict []) of
        Inl e \<Rightarrow> Inl e
      | Inr components \<Rightarrow>
          (case py_get components ''schemas'' (PDict []) of
             Inl e \<Rightarrow> Inl e
           | Inr schemas \<Rightarrow>
               (case patch_loop SCHEMAS_TO_PATCH (schemas, []) of
                  Inl e \<Rightarrow> Inl e
                | Inr (schemas', patched) \<Rightarrow> Inr (write_back spec schemas', patched))))"

text \<open>Lines 52 to 55: the line that is printed.\<close>

definition summary :: "string list \<Rightarrow> string" where
  "summary patched =
     (if patched \<noteq> [] then ''Patched schemas: '' @ join '', '' patched
      else ''No schemas needed patching'')"

subsection \<open>Files, standard output and the process\<close>

text \<open>
  The world the process runs in: the files by path, each with its permissions and its
  contents; the lines printed so far; and every call of \<open>open\<close> so far, whether it
  succeeded or not.  The contents are of any type \<open>'c\<close>: \<open>json.load\<close> and
  \<open>json.dump(_, f, indent=4)\<close> are library code and are parameters of the model,
  \<open>json_load\<close> returning \<open>None\<close> where the library raises.
\<close>

record 'c disk_file =
  readable :: bool
  writable :: bool
  content :: 'c

datatype io_event = OpenRead string | OpenWrite string

record 'c world =
  files :: "string \<Rightarrow> 'c disk_file option"
  stdout :: "string list"
  opens :: "io_event list"

definition print :: "string \<Rightarrow> 'c world \<Rightarrow> 'c world" where
  "print line w = w\<lparr>stdout := stdout w @ [line]\<rparr>"

text \<open>\<open>open(filepath, 'r')\<close> followed by reading the whole file.\<close>

definition read_file :: "string \<Rightarrow> 'c world \<Rightarrow> (error + 'c) \<times> 'c world" where
  "read_file filepath w =
     (let w' = w\<lparr>opens := opens w @ [OpenRead filepath]\<rparr> in
      case files w filepath of
        None \<Rightarrow> (Inl FileNotFoundError, w')
      | Some f \<Rightarrow> if readable f then (Inr (content f), w') else (Inl PermissionError, w'))"

text \<open>
  \<open>open(filepath, 'w')\<close> followed by writing \<open>c\<close>: the file is created when it is
  missing, and replaced as a whole when it may be written.
\<close>

definition write_file :: "string \<Rightarrow> 'c \<Rightarrow> 'c world \<Rightarrow> (error + unit) \<times> 'c world" where
  "write_file filepath c w =
     (let w' = w\<lparr>opens := opens w @ [OpenWrite filepath]\<rparr> in
      case files w filepath of
        None \<Rightarrow>
          (Inr (), w'\<lparr>files := (files w)(filepath \<mapsto>
                       \<lparr>readable = True, writable = True, content = c\<rparr>)\<rparr>)
      | Some f \<Rightarrow>
          if writable f
          then (Inr (), w'\<lparr>files := (files w)(filepath \<mapsto> f\<lparr>content := c\<rparr>)\<rparr>)
          else (Inl PermissionError, w'))"

text \<open>
  \<open>patch_spec(filepath)\<close>.  An exception leaves the function at once; the function
  has no \<open>return\<close> statement, so its value is \<open>None\<close>.
\<close>

definition patch_spec ::
  "('c \<Rightarrow> pyval option) \<Rightarrow> (pyval \<Rightarrow> 'c) \<Rightarrow> string \<Rightarrow> 'c world \<Rightarrow> (error + pyval) \<times> 'c world" where
  "patch_spec json_load json_dump filepath w =
     (case read_file filepath w of
        (Inl e, w1) \<Rightarrow> (Inl e, w1)
      | (Inr raw, w1) \<Rightarrow>
          (case json_load raw of
             None \<Rightarrow> (Inl JSONDecodeError, w1)
           | Some spec \<Rightarrow>
               (case patch_document spec of
                  Inl e \<Rightarrow> (Inl e, w1)
                | Inr (spec', patched) \<Rightarrow>
                    (case write_file filepath (json_dump spec') w1 of
                       (Inl e, w2) \<Rightarrow> (Inl e, w2)
                     | (Inr u, w2) \<Rightarrow> (Inr PNone, print (summary patched) w2)))))"

text \<open>
  The \<open>__main__\<close> block, with \<open>sys.argv\<close> as \<open>argv\<close>.  The result is the exit
  status: 1 from \<open>sys.exit(1)\<close>, 1 when an exception reaches the top level
  (the interpreter prints the traceback on standard error), 0 otherwise.
\<close>

definition main ::
  "('c \<Rightarrow> pyval option) \<Rightarrow> (pyval \<Rightarrow> 'c) \<Rightarrow> string list \<Rightarrow> 'c world \<Rightarrow> nat \<times> 'c world" where
  "main json_load json_dump argv w =
     (if length argv \<noteq> 2 then
        (1, print ''Usage: patch-openapi-spec.py <path-to-openapi.json>'' w)
      else
        (case patch_spec json_load json_dump (argv ! 1) w of
           (Inl e, w') \<Rightarrow> (1, w')
         | (Inr v, w') \<Rightarrow> (0, w')))"

section \<open>Observations on documents\<close>

text \<open>
  The value stored under a path of keys, going through \<open>dict\<close>s only: what
  \<open>spec[k1][k2]...\<close> reads, with \<open>None\<close> where a key is missing or the value on the
  way is not a \<open>dict\<close>.
\<close>

fun py_path :: "pyval \<Rightarrow> string list \<Rightarrow> pyval option" where
  "py_path v [] = Some v"
| "py_path (PDict kvs) (k # ks) = (case dict_get kvs k of None \<Rightarrow> None | Some v \<Rightarrow> py_path v ks)"
| "py_path _ (k # ks) = None"

text \<open>The keys of a \<open>dict\<close>, in their order.\<close>

definition py_keys :: "pyval \<Rightarrow> string list" where
  "py_keys v = (case v of PDict kvs \<Rightarrow> map fst kvs | _ \<Rightarrow> [])"

text \<open>The entry \<open>components.schemas.<n>\<close> and its field \<open>additionalProperties\<close>.\<close>

definition schema_entry :: "pyval \<Rightarrow> string \<Rightarrow> pyval option" where
  "schema_entry spec n = py_path spec [''components'', ''schemas'', n]"

definition target_field :: "pyval \<Rightarrow> string \<Rightarrow> pyval option" where
  "target_field spec n = py_path spec [''components'', ''schemas'', n, ''additionalProperties'']"

text \<open>
  The test of line 45 on an entry that is a \<open>dict\<close>, the entry after line 46, and
  both on the value stored under a name.
\<close>

definition needs_patch :: "pyval \<Rightarrow> bool" where
  "needs_patch v =
     (case v of
        PDict fs \<Rightarrow>
          (case dict_get fs ''additionalProperties'' of
             None \<Rightarrow> False
           | Some x \<Rightarrow> py_eq_False x)
      | _ \<Rightarrow> False)"

definition strip_entry :: "pyval \<Rightarrow> pyval" where
  "strip_entry v = (case v of PDict fs \<Rightarrow> PDict (dict_del fs ''additionalProperties'') | _ \<Rightarrow> v)"

definition after_patch :: "pyval \<Rightarrow> pyval" where
  "after_patch v = (if needs_patch v then strip_entry v else v)"

definition needs_patch_at :: "pydict \<Rightarrow> string \<Rightarrow> bool" where
  "needs_patch_at kvs n = (case dict_get kvs n of None \<Rightarrow> False | Some v \<Rightarrow> needs_patch v)"

section \<open>Example documents and worlds\<close>

text \<open>A world with one file, readable and writable, nothing printed and nothing opened yet.\<close>

definition one_file_world :: "string \<Rightarrow> 'c \<Rightarrow> 'c world" where
  "one_file_world p c =
     \<lparr>files = [p \<mapsto> \<lparr>readable = True, writable = True, content = c\<rparr>],
      stdout = [], opens = []\<rparr>"

text \<open>The document of the first scenario of the specification.\<close>

definition scenario_doc :: pyval where
  "scenario_doc =
     PDict [(''components'', PDict [(''schemas'', PDict [(''CardDetailsInput'',
       PDict [(''additionalProperties'', PBool False), (''type'', PStr ''object'')])])])]"

text \<open>
  A document with a top-level key besides \<open>components\<close>, a schema outside the
  allow-list and two allow-listed schemas, all three with \<open>additionalProperties: false\<close>,
  and the document the script makes of it.
\<close>

definition mixed_doc :: pyval where
  "mixed_doc =
     PDict [(''openapi'', PStr ''3.1.0''),
            (''components'', PDict [(''schemas'', PDict
               [(''UnrelatedSchema'', PDict [(''additionalProperties'', PBool False)]),
                (''CardDetailsInput'', PDict [(''type'', PStr ''object''),
                                             (''additionalProperties'', PBool False)]),
                (''AIIdentificationInput'', PDict [(''additionalProperties'', PBool False)])])])]"

definition mixed_doc_patched :: pyval where
  "mixed_doc_patched =
     PDict [(''openapi'', PStr ''3.1.0''),
            (''components'', PDict [(''schemas'', PDict
               [(''UnrelatedSchema'', PDict [(''additionalProperties'', PBool False)]),
                (''CardDetailsInput'', PDict [(''type'', PStr ''object'')]),
                (''AIIdentificationInput'', PDict [])])])]"

section \<open>Evaluation of the definitions\<close>

lemmas run_defs =
  main_def patch_spec_def read_file_def write_file_def print_def summary_def
  patch_document_def write_back_def SCHEMAS_TO_PATCH_def patch_step_def store_entry_def
  dict_get_def dict_del_def one_file_world_def

section \<open>Dictionaries\<close>

lemma dict_get_Nil: "dict_get [] k = None"
  by (simp add: dict_get_def)

lemma dict_get_dict_set:
  "dict_get (dict_set kvs k v) k' = (if k' = k then Some v else dict_get kvs k')"
  by (induction kvs) (auto simp: dict_get_def)

lemma dict_set_same: "dict_get kvs k = Some v \<Longrightarrow> dict_set kvs k v = kvs"
  by (induction kvs) (auto simp: dict_get_def split: if_splits)

lemma dict_set_twice: "dict_set (dict_set kvs k u) k v = dict_set kvs k v"
  by (induction kvs) auto

lemma keys_dict_set:
  "dict_get kvs k \<noteq> None \<Longrightarrow> map fst (dict_set kvs k v) = map fst kvs"
  by (induction kvs) (auto simp: dict_get_def split: if_splits)

lemma dict_get_dict_del:
  "dict_get (dict_del kvs k) k' = (if k' = k then None else dict_get kvs k')"
  by (induction kvs) (auto simp: dict_get_def dict_del_def)

section \<open>The comparison with \<open>False\<close>\<close>

lemma py_eq_False_iff:
  "py_eq_False v \<longleftrightarrow> v = PBool False \<or> v = PInt 0 \<or> (\<exists>w. v = PFloat w \<and> float_is_zero w)"
  by (cases v) auto

lemma float_is_zero_iff: "float_is_zero w \<longleftrightarrow> w = 0 \<or> w = 0x8000000000000000"
proof -
  have m: "(0x7FFFFFFFFFFFFFFF :: 64 word) = mask 63"
    by (simp add: mask_eq_exp_minus_1)
  have "unat (take_bit 63 w) = unat w mod 2 ^ 63"
    by (subst unsigned_take_bit_eq) (simp only: take_bit_eq_mod)
  then have "(w AND mask 63 = 0) = (unat w mod 2 ^ 63 = 0)"
    by (simp only: take_bit_eq_mask [symmetric] unat_eq_0 [symmetric])
  also have "\<dots> = (unat w = 0 \<or> unat w = 2 ^ 63)"
  proof
    assume "unat w mod 2 ^ 63 = 0"
    then obtain k where k: "unat w = 2 ^ 63 * k"
      by (auto simp: mod_eq_0_iff_dvd)
    have "unat w < 2 ^ 63 * 2"
      using unsigned_less [of w, where 'a = nat] by simp
    with k have "k < 2" by simp
    then have "k = 0 \<or> k = 1" by arith
    with k show "unat w = 0 \<or> unat w = 2 ^ 63" by auto
  next
    assume "unat w = 0 \<or> unat w = 2 ^ 63"
    then show "unat w mod 2 ^ 63 = 0" by auto
  qed
  also have "\<dots> = (w = 0 \<or> w = 0x8000000000000000)"
    by (simp add: word_unat_eq_iff)
  finally show ?thesis by (simp add: float_is_zero_def m)
qed

lemma needs_patch_iff:
  "needs_patch v \<longleftrightarrow> (\<exists>x. py_path v [''additionalProperties''] = Some x \<and> py_eq_False x)"
  by (cases v) (auto simp: needs_patch_def split: option.splits)

lemma needs_patch_strip: "\<not> needs_patch (PDict (dict_del fs ''additionalProperties''))"
  by (simp add: needs_patch_def dict_get_dict_del)

lemma after_patch_cases:
  "after_patch v = v \<or> (\<exists>fs. v = PDict fs \<and> after_patch v = PDict (dict_del fs ''additionalProperties''))"
  by (cases v) (simp_all add: after_patch_def strip_entry_def needs_patch_def)

lemma after_patch_other_field:
  "k \<noteq> ''additionalProperties'' \<Longrightarrow> py_path (after_patch v) (k # ks) = py_path v (k # ks)"
  by (cases v) (simp_all add: after_patch_def strip_entry_def dict_get_dict_del)

lemma target_after_patch:
  "(py_path v [''additionalProperties''] \<noteq> None \<and> py_path (after_patch v) [''additionalProperties''] = None)
     = needs_patch v"
  by (cases v) (auto simp: after_patch_def strip_entry_def needs_patch_def dict_get_dict_del
        split: option.splits)

section \<open>The loop\<close>

lemma patch_step_dict:
  "patch_step n (PDict kvs, p) =
     (case dict_get kvs n of
        None \<Rightarrow> Inr (PDict kvs, p)
      | Some (PDict fs) \<Rightarrow>
          if needs_patch (PDict fs)
          then Inr (PDict (dict_set kvs n (PDict (dict_del fs ''additionalProperties''))), p @ [n])
          else Inr (PDict kvs, p)
      | Some _ \<Rightarrow> Inl AttributeError)"
  by (auto simp: patch_step_def needs_patch_def store_entry_def split: option.splits pyval.splits)

lemma patch_step_other:
  "\<forall>kvs. s \<noteq> PDict kvs \<Longrightarrow>
   patch_step n (s, p) =
     (case py_in n s of Inl e \<Rightarrow> Inl e | Inr True \<Rightarrow> Inl TypeError | Inr False \<Rightarrow> Inr (s, p))"
  by (cases s) (auto simp: patch_step_def split: sum.splits bool.splits)

lemma patch_step_absent: "py_in n s = Inr False \<Longrightarrow> patch_step n (s, p) = Inr (s, p)"
  by (simp add: patch_step_def)

lemma patch_loop_absent:
  "\<forall>n\<in>set ns. py_in n s = Inr False \<Longrightarrow> patch_loop ns (s, p) = Inr (s, p)"
  by (induction ns) (simp_all add: patch_step_absent)

lemma patch_loop_other:
  "\<forall>kvs. s \<noteq> PDict kvs \<Longrightarrow> patch_loop ns (s, p) = Inr st \<Longrightarrow>
   st = (s, p) \<and> (\<forall>n\<in>set ns. py_in n s = Inr False)"
proof (induction ns)
  case Nil
  then show ?case by simp
next
  case (Cons n ns)
  from Cons.prems have "py_in n s = Inr False"
    by (auto simp: patch_step_other split: sum.splits bool.splits)
  with Cons show ?case by (simp add: patch_step_absent)
qed

lemma patch_loop_other_error:
  "\<forall>kvs. s \<noteq> PDict kvs \<Longrightarrow> patch_loop ns (s, p) = Inl e \<Longrightarrow> e = TypeError"
proof (induction ns)
  case Nil
  then show ?case by simp
next
  case (Cons n ns)
  then show ?case
    by (cases s) (auto simp: patch_step_other split: sum.splits bool.splits)
qed

lemma patch_loop_noop:
  "\<forall>n\<in>set ns. \<forall>v. dict_get kvs n = Some v \<longrightarrow> (\<exists>fs. v = PDict fs) \<and> \<not> needs_patch v \<Longrightarrow>
   patch_loop ns (PDict kvs, p) = Inr (PDict kvs, p)"
  by (induction ns) (auto simp: patch_step_dict split: option.splits pyval.splits)

lemma patch_step_dict_props:
  assumes "patch_step n (PDict kvs, p) = Inr st"
  shows "\<exists>kvs1. st = (PDict kvs1, p @ (if needs_patch_at kvs n then [n] else []))
     \<and> map fst kvs1 = map fst kvs
     \<and> (\<forall>k. k \<noteq> n \<longrightarrow> dict_get kvs1 k = dict_get kvs k)
     \<and> dict_get kvs1 n = map_option after_patch (dict_get kvs n)
     \<and> (\<forall>v. dict_get kvs n = Some v \<longrightarrow> (\<exists>fs. v = PDict fs))
     \<and> \<not> needs_patch_at kvs1 n"
proof (cases "dict_get kvs n")
  case None
  with assms show ?thesis
    by (auto simp: patch_step_dict needs_patch_at_def)
next
  case (Some v)
  with assms obtain fs where v: "v = PDict fs"
    by (cases v) (auto simp: patch_step_dict)
  show ?thesis
  proof (cases "needs_patch v")
    case False
    with assms Some v show ?thesis
      by (auto simp: patch_step_dict needs_patch_at_def after_patch_def)
  next
    case True
    with assms Some v show ?thesis
      by (auto simp: patch_step_dict needs_patch_at_def after_patch_def strip_entry_def
            keys_dict_set dict_get_dict_set needs_patch_strip)
  qed
qed

lemma patch_loop_dict:
  assumes "patch_loop ns (PDict kvs, p) = Inr (s', p')"
  shows "\<exists>kvs'. s' = PDict kvs' \<and> map fst kvs' = map fst kvs
     \<and> (\<forall>n\<in>set ns. \<forall>v. dict_get kvs n = Some v \<longrightarrow> (\<exists>fs. v = PDict fs))
     \<and> (\<forall>k. dict_get kvs' k =
          (if k \<in> set ns then map_option after_patch (dict_get kvs k) else dict_get kvs k))
     \<and> (\<forall>n\<in>set ns. \<not> needs_patch_at kvs' n)
     \<and> (distinct ns \<longrightarrow> p' = p @ filter (needs_patch_at kvs) ns)"
  using assms
proof (induction ns arbitrary: kvs p)
  case Nil
  then show ?case by auto
next
  case (Cons n ns)
  from Cons.prems obtain st where st: "patch_step n (PDict kvs, p) = Inr st"
    and run: "patch_loop ns st = Inr (s', p')"
    by (auto split: sum.splits)
  from patch_step_dict_props [OF st] obtain kvs1 where
    st1: "st = (PDict kvs1, p @ (if needs_patch_at kvs n then [n] else []))" and
    a: "map fst kvs1 = map fst kvs" and
    b: "\<forall>k. k \<noteq> n \<longrightarrow> dict_get kvs1 k = dict_get kvs k" and
    c: "dict_get kvs1 n = map_option after_patch (dict_get kvs n)" and
    e: "\<forall>v. dict_get kvs n = Some v \<longrightarrow> (\<exists>fs. v = PDict fs)" and
    f: "\<not> needs_patch_at kvs1 n"
    by blast
  from Cons.IH [OF run [unfolded st1]] obtain kvs' where
    s': "s' = PDict kvs'" and
    keys: "map fst kvs' = map fst kvs1" and
    dicts: "\<forall>m\<in>set ns. \<forall>u. dict_get kvs1 m = Some u \<longrightarrow> (\<exists>fs. u = PDict fs)" and
    look: "\<forall>k. dict_get kvs' k =
          (if k \<in> set ns then map_option after_patch (dict_get kvs1 k) else dict_get kvs1 k)" and
    fin: "\<forall>m\<in>set ns. \<not> needs_patch_at kvs' m" and
    pat: "distinct ns \<longrightarrow>
          p' = (p @ (if needs_patch_at kvs n then [n] else [])) @ filter (needs_patch_at kvs1) ns"
    by blast
  have idem: "after_patch (after_patch v) = after_patch v" for v
    by (cases v) (simp_all add: after_patch_def strip_entry_def needs_patch_strip)
  have k1: "map fst kvs' = map fst kvs"
    using keys a by simp
  have k2: "\<forall>m\<in>set (n # ns). \<forall>u. dict_get kvs m = Some u \<longrightarrow> (\<exists>fs. u = PDict fs)"
    using dicts e b by auto
  have k3: "dict_get kvs' k =
      (if k \<in> set (n # ns) then map_option after_patch (dict_get kvs k) else dict_get kvs k)" for k
  proof (cases "k = n")
    case True
    then show ?thesis using look c
      by (cases "dict_get kvs n") (simp_all add: idem)
  next
    case False
    then show ?thesis using look b by simp
  qed
  have k5: "\<forall>m\<in>set (n # ns). \<not> needs_patch_at kvs' m"
  proof -
    have "\<not> needs_patch_at kvs' n"
    proof (cases "n \<in> set ns")
      case True
      with fin show ?thesis by simp
    next
      case False
      with look have "dict_get kvs' n = dict_get kvs1 n" by simp
      with f show ?thesis by (simp add: needs_patch_at_def)
    qed
    with fin show ?thesis by simp
  qed
  have k4: "distinct (n # ns) \<longrightarrow> p' = p @ filter (needs_patch_at kvs) (n # ns)"
  proof
    assume d: "distinct (n # ns)"
    then have "filter (needs_patch_at kvs1) ns = filter (needs_patch_at kvs) ns"
      using b by (intro filter_cong) (auto simp: needs_patch_at_def)
    with d pat show "p' = p @ filter (needs_patch_at kvs) (n # ns)"
      by simp
  qed
  from s' k1 k2 k3 k4 k5 show ?case by blast
qed

lemma patch_loop_bad_entry:
  "n \<in> set ns \<Longrightarrow> dict_get kvs n = Some v \<Longrightarrow> \<forall>fs. v \<noteq> PDict fs \<Longrightarrow>
   patch_loop ns (PDict kvs, p) = Inl AttributeError"
proof (induction ns arbitrary: kvs p)
  case Nil
  then show ?case by simp
next
  case (Cons m ns)
  show ?case
  proof (cases "m = n")
    case True
    with Cons.prems show ?thesis
      by (cases v) (simp_all add: patch_step_dict)
  next
    case False
    with Cons.prems have n: "n \<in> set ns" by simp
    show ?thesis
    proof (cases "patch_step m (PDict kvs, p)")
      case (Inl e)
      then have "e = AttributeError"
        by (auto simp: patch_step_dict split: option.splits pyval.splits if_splits)
      with Inl show ?thesis by simp
    next
      case (Inr st)
      then obtain kvs1 p1 where st: "st = (PDict kvs1, p1)" and "dict_get kvs1 n = dict_get kvs n"
        using False
        by (auto simp: patch_step_dict dict_get_dict_set split: option.splits pyval.splits if_splits)
      with Cons.IH [OF n, of kvs1 p1] Cons.prems Inr show ?thesis by simp
    qed
  qed
qed

lemma distinct_SCHEMAS_TO_PATCH: "distinct SCHEMAS_TO_PATCH"
  by (simp add: SCHEMAS_TO_PATCH_def)

lemma patch_loop_empty_dict: "patch_loop ns (PDict [], p) = Inr (PDict [], p)"
  by (rule patch_loop_noop) (simp add: dict_get_def)

section \<open>The document\<close>

text \<open>The shapes of a document on which lines 39 to 47 raise nothing.\<close>

lemma patch_document_Inr:
  assumes "patch_document spec = Inr (spec', patched)"
  shows "\<exists>root. spec = PDict root \<and>
     ((spec' = spec \<and> patched = [] \<and>
        (dict_get root ''components'' = None \<or>
         (\<exists>comps. dict_get root ''components'' = Some (PDict comps) \<and>
            (dict_get comps ''schemas'' = None \<or>
             (\<exists>sv. dict_get comps ''schemas'' = Some sv \<and> (\<forall>kvs. sv \<noteq> PDict kvs) \<and>
                (\<forall>n\<in>set SCHEMAS_TO_PATCH. py_in n sv = Inr False))))))
      \<or> (\<exists>comps kvs kvs'.
            dict_get root ''components'' = Some (PDict comps) \<and>
            dict_get comps ''schemas'' = Some (PDict kvs) \<and>
            patch_loop SCHEMAS_TO_PATCH (PDict kvs, []) = Inr (PDict kvs', patched) \<and>
            spec' = PDict (dict_set root ''components''
                      (PDict (dict_set comps ''schemas'' (PDict kvs'))))))"
proof -
  from assms obtain root where root: "spec = PDict root"
    by (cases spec) (simp_all add: patch_document_def)
  show ?thesis
  proof (cases "dict_get root ''components''")
    case None
    with assms root show ?thesis
      by (auto simp: patch_document_def patch_loop_empty_dict write_back_def dict_get_Nil)
  next
    case (Some cv)
    with assms root obtain comps where cv: "cv = PDict comps"
      by (cases cv) (simp_all add: patch_document_def)
    show ?thesis
    proof (cases "dict_get comps ''schemas''")
      case None
      with assms root Some cv show ?thesis
        by (auto simp: patch_document_def patch_loop_empty_dict write_back_def dict_get_Nil)
    next
      case sv: (Some sv)
      from assms root Some cv sv obtain s' where
        run: "patch_loop SCHEMAS_TO_PATCH (sv, []) = Inr (s', patched)" and
        wb: "spec' = PDict (dict_set root ''components''
                      (PDict (dict_set comps ''schemas'' s')))"
        by (auto simp: patch_document_def write_back_def split: sum.splits)
      show ?thesis
      proof (cases "\<exists>kvs. sv = PDict kvs")
        case True
        then obtain kvs where kvs: "sv = PDict kvs" by blast
        from patch_loop_dict [OF run [unfolded kvs]] obtain kvs' where "s' = PDict kvs'"
          by blast
        with root Some cv sv kvs run wb show ?thesis by auto
      next
        case False
        then have nd: "\<forall>kvs. sv \<noteq> PDict kvs" by blast
        from patch_loop_other [OF nd run]
        have "s' = sv" "patched = []" "\<forall>n\<in>set SCHEMAS_TO_PATCH. py_in n sv = Inr False"
          by auto
        with root Some cv sv wb nd show ?thesis
          by (auto simp: dict_set_same)
      qed
    qed
  qed
qed

text \<open>A successful run of lines 39 to 47 that found an object under \<open>components.schemas\<close>.\<close>

lemma patch_document_cases:
  assumes "patch_document spec = Inr (spec', patched)"
  obtains (same) "spec' = spec" "patched = []"
  | (object) root comps kvs kvs' where
      "spec = PDict root"
      "dict_get root ''components'' = Some (PDict comps)"
      "dict_get comps ''schemas'' = Some (PDict kvs)"
      "patch_loop SCHEMAS_TO_PATCH (PDict kvs, []) = Inr (PDict kvs', patched)"
      "spec' = PDict (dict_set root ''components''
                 (PDict (dict_set comps ''schemas'' (PDict kvs'))))"
  using patch_document_Inr [OF assms] by blast

lemma schema_entry_SomeD:
  assumes "schema_entry spec n = Some v"
  shows "\<exists>root comps kvs. spec = PDict root \<and> dict_get root ''components'' = Some (PDict comps)
     \<and> dict_get comps ''schemas'' = Some (PDict kvs) \<and> dict_get kvs n = Some v"
proof -
  from assms obtain root where root: "spec = PDict root"
    by (cases spec) (simp_all add: schema_entry_def)
  with assms obtain cv where cv: "dict_get root ''components'' = Some cv"
    and 1: "py_path cv [''schemas'', n] = Some v"
    by (auto simp: schema_entry_def split: option.splits)
  from 1 obtain comps where comps: "cv = PDict comps"
    by (cases cv) simp_all
  with 1 obtain sv where sv: "dict_get comps ''schemas'' = Some sv"
    and 2: "py_path sv [n] = Some v"
    by (auto split: option.splits)
  from 2 obtain kvs where kvs: "sv = PDict kvs"
    by (cases sv) simp_all
  with 2 have "dict_get kvs n = Some v"
    by (auto split: option.splits)
  with root cv comps sv kvs show ?thesis by blast
qed

lemma patch_document_schemas:
  "dict_get root ''components'' = Some (PDict comps) \<Longrightarrow>
   dict_get comps ''schemas'' = Some sv \<Longrightarrow>
   patch_document (PDict root) =
     (case patch_loop SCHEMAS_TO_PATCH (sv, []) of
        Inl e \<Rightarrow> Inl e
      | Inr (s', patched) \<Rightarrow>
          Inr (PDict (dict_set root ''components'' (PDict (dict_set comps ''schemas'' s'))),
               patched))"
  by (auto simp: patch_document_def write_back_def split: sum.splits)

lemma patch_document_no_components:
  "dict_get root ''components'' = None \<Longrightarrow> patch_document (PDict root) = Inr (PDict root, [])"
  by (simp add: patch_document_def write_back_def dict_get_Nil patch_loop_empty_dict)

lemma patch_document_no_schemas:
  "dict_get root ''components'' = Some (PDict comps) \<Longrightarrow> dict_get comps ''schemas'' = None \<Longrightarrow>
   patch_document (PDict root) = Inr (PDict root, [])"
  by (simp add: patch_document_def write_back_def patch_loop_empty_dict)

lemma patch_document_bad_components:
  "dict_get root ''components'' = Some cv \<Longrightarrow> \<forall>kvs. cv \<noteq> PDict kvs \<Longrightarrow>
   patch_document (PDict root) = Inl AttributeError"
  by (cases cv) (simp_all add: patch_document_def)

lemma patch_document_no_names:
  assumes "dict_get root ''components'' = Some (PDict comps)"
    and "dict_get comps ''schemas'' = Some sv"
    and "\<forall>n\<in>set SCHEMAS_TO_PATCH. py_in n sv = Inr False"
  shows "patch_document (PDict root) = Inr (PDict root, [])"
  using assms
  by (simp add: patch_document_schemas patch_loop_absent dict_set_same)

lemma patch_document_bad_schemas:
  assumes "dict_get root ''components'' = Some (PDict comps)"
    and "dict_get comps ''schemas'' = Some sv"
    and "\<forall>kvs. sv \<noteq> PDict kvs"
  shows "patch_document (PDict root) =
     (if \<forall>n\<in>set SCHEMAS_TO_PATCH. py_in n sv = Inr False
      then Inr (PDict root, []) else Inl TypeError)"
proof (cases "\<forall>n\<in>set SCHEMAS_TO_PATCH. py_in n sv = Inr False")
  case True
  with assms show ?thesis by (simp add: patch_document_no_names)
next
  case False
  show ?thesis
  proof (cases "patch_loop SCHEMAS_TO_PATCH (sv, [])")
    case (Inl e)
    with patch_loop_other_error [OF assms(3) Inl] assms(1,2) False show ?thesis
      by (simp add: patch_document_schemas)
  next
    case (Inr st)
    with patch_loop_other [OF assms(3) Inr] False show ?thesis by simp
  qed
qed

lemma path_after_store:
  assumes "dict_get root ''components'' = Some (PDict comps)"
    and "dict_get comps ''schemas'' = Some (PDict kvs)"
  shows "py_path (PDict (dict_set root ''components''
            (PDict (dict_set comps ''schemas'' (PDict kvs'))))) (''components'' # ''schemas'' # n # ks)
         = (case dict_get kvs' n of None \<Rightarrow> None | Some v \<Rightarrow> py_path v ks)"
    and "py_path (PDict root) (''components'' # ''schemas'' # n # ks)
         = (case dict_get kvs n of None \<Rightarrow> None | Some v \<Rightarrow> py_path v ks)"
  using assms by (simp_all add: dict_get_dict_set)

lemma patched_names:
  assumes "patch_document spec = Inr (spec', patched)"
  shows "patched =
     filter (\<lambda>n. target_field spec n \<noteq> None \<and> target_field spec' n = None) SCHEMAS_TO_PATCH"
  using assms
proof (cases rule: patch_document_cases)
  case same
  have "filter (\<lambda>n. target_field spec n \<noteq> None \<and> target_field spec n = None) SCHEMAS_TO_PATCH = []"
    by (auto simp: filter_empty_conv)
  with same show ?thesis by simp
next
  case (object root comps kvs kvs')
  from patch_loop_dict [OF object(4)] distinct_SCHEMAS_TO_PATCH have
    look: "\<And>k. dict_get kvs' k =
          (if k \<in> set SCHEMAS_TO_PATCH then map_option after_patch (dict_get kvs k)
           else dict_get kvs k)" and
    pat: "patched = filter (needs_patch_at kvs) SCHEMAS_TO_PATCH"
    by auto
  have "needs_patch_at kvs n = (target_field spec n \<noteq> None \<and> target_field spec' n = None)"
    if "n \<in> set SCHEMAS_TO_PATCH" for n
  proof (cases "dict_get kvs n")
    case None
    with that show ?thesis
      using path_after_store(1) [OF object(2,3), of kvs' n "[''additionalProperties'']"]
        path_after_store(2) [OF object(2,3), of n "[''additionalProperties'']"] object(1,5)
      by (simp add: target_field_def needs_patch_at_def look)
  next
    case (Some v)
    with that show ?thesis
      using path_after_store(1) [OF object(2,3), of kvs' n "[''additionalProperties'']"]
        path_after_store(2) [OF object(2,3), of n "[''additionalProperties'']"] object(1,5)
        target_after_patch [of v]
      by (simp add: target_field_def needs_patch_at_def look)
  qed
  then have "filter (needs_patch_at kvs) SCHEMAS_TO_PATCH =
     filter (\<lambda>n. target_field spec n \<noteq> None \<and> target_field spec' n = None) SCHEMAS_TO_PATCH"
    by (intro filter_cong) auto
  with pat show ?thesis by simp
qed

lemma removed_iff_eq_False:
  assumes "patch_document spec = Inr (spec', patched)" and "n \<in> set SCHEMAS_TO_PATCH"
  shows "(target_field spec n \<noteq> None \<and> target_field spec' n = None)
     \<longleftrightarrow> (\<exists>x. target_field spec n = Some x \<and> py_eq_False x)"
proof -
  from patch_document_Inr [OF assms(1)] obtain root where root: "spec = PDict root" and
    shape: "(spec' = spec \<and> patched = [] \<and>
        (dict_get root ''components'' = None \<or>
         (\<exists>comps. dict_get root ''components'' = Some (PDict comps) \<and>
            (dict_get comps ''schemas'' = None \<or>
             (\<exists>sv. dict_get comps ''schemas'' = Some sv \<and> (\<forall>kvs. sv \<noteq> PDict kvs) \<and>
                (\<forall>n\<in>set SCHEMAS_TO_PATCH. py_in n sv = Inr False))))))
      \<or> (\<exists>comps kvs kvs'.
            dict_get root ''components'' = Some (PDict comps) \<and>
            dict_get comps ''schemas'' = Some (PDict kvs) \<and>
            patch_loop SCHEMAS_TO_PATCH (PDict kvs, []) = Inr (PDict kvs', patched) \<and>
            spec' = PDict (dict_set root ''components''
                      (PDict (dict_set comps ''schemas'' (PDict kvs')))))"
    by blast
  from shape show ?thesis
  proof (elim disjE conjE exE)
    assume "dict_get root ''components'' = None"
    with root show ?thesis by (simp add: target_field_def)
  next
    fix comps
    assume "dict_get root ''components'' = Some (PDict comps)" "dict_get comps ''schemas'' = None"
    with root show ?thesis by (simp add: target_field_def)
  next
    fix comps sv
    assume "dict_get root ''components'' = Some (PDict comps)"
      "dict_get comps ''schemas'' = Some sv" "\<forall>kvs. sv \<noteq> PDict kvs"
    with root show ?thesis by (cases sv) (simp_all add: target_field_def)
  next
    fix comps kvs kvs'
    assume c: "dict_get root ''components'' = Some (PDict comps)"
      and s: "dict_get comps ''schemas'' = Some (PDict kvs)"
      and run: "patch_loop SCHEMAS_TO_PATCH (PDict kvs, []) = Inr (PDict kvs', patched)"
      and spec': "spec' = PDict (dict_set root ''components''
                      (PDict (dict_set comps ''schemas'' (PDict kvs'))))"
    from patch_loop_dict [OF run] assms(2)
    have look: "dict_get kvs' n = map_option after_patch (dict_get kvs n)" by simp
    show ?thesis
    proof (cases "dict_get kvs n")
      case None
      with look show ?thesis
        using path_after_store(1) [OF c s, of kvs' n "[''additionalProperties'']"]
          path_after_store(2) [OF c s, of n "[''additionalProperties'']"] root spec'
        by (simp add: target_field_def)
    next
      case (Some v)
      with look show ?thesis
        using path_after_store(1) [OF c s, of kvs' n "[''additionalProperties'']"]
          path_after_store(2) [OF c s, of n "[''additionalProperties'']"] root spec'
          target_after_patch [of v] needs_patch_iff [of v]
        by (simp add: target_field_def)
    qed
  qed
qed

lemma patch_document_idem:
  assumes "patch_document spec = Inr (spec', patched)"
  shows "patch_document spec' = Inr (spec', [])"
  using assms
proof (cases rule: patch_document_cases)
  case same
  with assms show ?thesis by simp
next
  case (object root comps kvs kvs')
  let ?comps' = "dict_set comps ''schemas'' (PDict kvs')"
  let ?root' = "dict_set root ''components'' (PDict ?comps')"
  from patch_loop_dict [OF object(4)] have
    dicts: "\<forall>n\<in>set SCHEMAS_TO_PATCH. \<forall>v. dict_get kvs n = Some v \<longrightarrow> (\<exists>fs. v = PDict fs)" and
    look: "\<And>k. dict_get kvs' k =
          (if k \<in> set SCHEMAS_TO_PATCH then map_option after_patch (dict_get kvs k)
           else dict_get kvs k)" and
    fin: "\<forall>n\<in>set SCHEMAS_TO_PATCH. \<not> needs_patch_at kvs' n"
    by auto
  have "\<forall>n\<in>set SCHEMAS_TO_PATCH. \<forall>v. dict_get kvs' n = Some v \<longrightarrow>
          (\<exists>fs. v = PDict fs) \<and> \<not> needs_patch v"
  proof (intro ballI allI impI)
    fix n v
    assume n: "n \<in> set SCHEMAS_TO_PATCH" and v: "dict_get kvs' n = Some v"
    from n v look [of n] obtain u where u: "dict_get kvs n = Some u" "v = after_patch u"
      by auto
    with dicts n obtain fs where "u = PDict fs" by blast
    with u have "\<exists>fs. v = PDict fs"
      by (simp add: after_patch_def strip_entry_def)
    moreover from fin n v have "\<not> needs_patch v"
      by (auto simp: needs_patch_at_def)
    ultimately show "(\<exists>fs. v = PDict fs) \<and> \<not> needs_patch v" by simp
  qed
  then have loop: "patch_loop SCHEMAS_TO_PATCH (PDict kvs', []) = Inr (PDict kvs', [])"
    by (rule patch_loop_noop)
  have c: "dict_get ?root' ''components'' = Some (PDict ?comps')"
    and s: "dict_get ?comps' ''schemas'' = Some (PDict kvs')"
    by (simp_all add: dict_get_dict_set)
  from patch_document_schemas [OF c s] loop
  have "patch_document (PDict ?root') = Inr (PDict ?root', [])"
    by (simp add: dict_set_same [OF c] dict_set_same [OF s])
  with object(5) show ?thesis by simp
qed

lemma patch_document_mixed_doc:
  "patch_document mixed_doc = Inr (mixed_doc_patched, [''AIIdentificationInput'', ''CardDetailsInput''])"
  by (simp add: run_defs mixed_doc_def mixed_doc_patched_def)

section \<open>The process\<close>

text \<open>Every way through \<open>patch_spec\<close>, one lemma each.\<close>

lemma patch_spec_no_file:
  "files w p = None \<Longrightarrow>
   patch_spec L D p w = (Inl FileNotFoundError, w\<lparr>opens := opens w @ [OpenRead p]\<rparr>)"
  by (simp add: patch_spec_def read_file_def)

lemma patch_spec_unreadable:
  "files w p = Some f \<Longrightarrow> \<not> readable f \<Longrightarrow>
   patch_spec L D p w = (Inl PermissionError, w\<lparr>opens := opens w @ [OpenRead p]\<rparr>)"
  by (simp add: patch_spec_def read_file_def)

lemma patch_spec_unparseable:
  "files w p = Some f \<Longrightarrow> readable f \<Longrightarrow> L (content f) = None \<Longrightarrow>
   patch_spec L D p w = (Inl JSONDecodeError, w\<lparr>opens := opens w @ [OpenRead p]\<rparr>)"
  by (simp add: patch_spec_def read_file_def)

lemma patch_spec_raises:
  "files w p = Some f \<Longrightarrow> readable f \<Longrightarrow> L (content f) = Some spec \<Longrightarrow>
   patch_document spec = Inl e \<Longrightarrow>
   patch_spec L D p w = (Inl e, w\<lparr>opens := opens w @ [OpenRead p]\<rparr>)"
  by (simp add: patch_spec_def read_file_def)

lemma patch_spec_unwritable:
  "files w p = Some f \<Longrightarrow> readable f \<Longrightarrow> L (content f) = Some spec \<Longrightarrow>
   patch_document spec = Inr (spec', patched) \<Longrightarrow> \<not> writable f \<Longrightarrow>
   patch_spec L D p w =
     (Inl PermissionError, w\<lparr>opens := opens w @ [OpenRead p, OpenWrite p]\<rparr>)"
  by (simp add: patch_spec_def read_file_def write_file_def)

lemma patch_spec_returns:
  "files w p = Some f \<Longrightarrow> readable f \<Longrightarrow> L (content f) = Some spec \<Longrightarrow>
   patch_document spec = Inr (spec', patched) \<Longrightarrow> writable f \<Longrightarrow>
   patch_spec L D p w =
     (Inr PNone,
      w\<lparr>files := (files w)(p \<mapsto> f\<lparr>content := D spec'\<rparr>),
        stdout := stdout w @ [summary patched],
        opens := opens w @ [OpenRead p, OpenWrite p]\<rparr>)"
  by (simp add: patch_spec_def read_file_def write_file_def print_def)

lemma patch_spec_Inr:
  assumes "patch_spec L D p w = (Inr v, w')"
  shows "\<exists>f spec spec' patched.
     files w p = Some f \<and> readable f \<and> writable f \<and> L (content f) = Some spec \<and>
     patch_document spec = Inr (spec', patched) \<and> v = PNone \<and>
     w' = w\<lparr>files := (files w)(p \<mapsto> f\<lparr>content := D spec'\<rparr>),
             stdout := stdout w @ [summary patched],
             opens := opens w @ [OpenRead p, OpenWrite p]\<rparr>"
proof (cases "files w p")
  case None
  with assms show ?thesis by (simp add: patch_spec_no_file)
next
  case (Some f)
  show ?thesis
  proof (cases "readable f")
    case False
    with assms Some show ?thesis by (simp add: patch_spec_unreadable)
  next
    case True
    show ?thesis
    proof (cases "L (content f)")
      case None
      with assms Some True show ?thesis by (simp add: patch_spec_unparseable)
    next
      case spec: (Some spec)
      show ?thesis
      proof (cases "patch_document spec")
        case (Inl e)
        with assms Some True spec show ?thesis by (simp add: patch_spec_raises)
      next
        case (Inr r)
        then obtain spec' patched where r: "patch_document spec = Inr (spec', patched)"
          by (cases r) simp
        show ?thesis
        proof (cases "writable f")
          case False
          with assms Some True spec r show ?thesis by (simp add: patch_spec_unwritable)
        next
          case w: True
          from patch_spec_returns [of w p f L spec spec' patched D] Some True spec r w assms
          have "v = PNone"
            "w' = w\<lparr>files := (files w)(p \<mapsto> f\<lparr>content := D spec'\<rparr>),
                   stdout := stdout w @ [summary patched],
                   opens := opens w @ [OpenRead p, OpenWrite p]\<rparr>"
            by simp_all
          with Some True spec r w show ?thesis by blast
        qed
      qed
    qed
  qed
qed

lemma main_run:
  "main L D [prog, p] w =
     (case patch_spec L D p w of (Inl e, w') \<Rightarrow> (1, w') | (Inr v, w') \<Rightarrow> (0, w'))"
  by (simp add: main_def)

section \<open>Properties of the script\<close>

subsection \<open>C1\<close>

text \<open>
  Claim C1 says that the field is removed only when its value is the boolean \<open>false\<close>.
  Line 45 compares with \<open>== False\<close>, which holds for the number 0 as well: an
  allow-listed entry whose \<open>additionalProperties\<close> is the integer 0, or the float -0.0,
  loses the field and is reported as patched.
\<close>

theorem numeric_zero_is_removed:
  "patch_document
     (PDict [(''components'', PDict [(''schemas'', PDict [(''CardDetailsInput'',
        PDict [(''additionalProperties'', PInt 0), (''type'', PStr ''object'')])])])])
   = Inr (PDict [(''components'', PDict [(''schemas'', PDict [(''CardDetailsInput'',
            PDict [(''type'', PStr ''object'')])])])],
          [''CardDetailsInput''])
   \<and> patch_document
     (PDict [(''components'', PDict [(''schemas'', PDict [(''CardDetailsInput'',
        PDict [(''additionalProperties'', PFloat 0x8000000000000000)])])])])
   = Inr (PDict [(''components'', PDict [(''schemas'', PDict [(''CardDetailsInput'',
            PDict [])])])],
          [''CardDetailsInput''])"
  by (simp add: run_defs float_is_zero_def)

subsection \<open>C2\<close>

text \<open>
  Claim C2.  Provided \<open>json.load\<close> gives back what \<open>json.dump\<close> wrote, a second run
  after a run that returned also returns, leaves every file as the first run left it,
  and prints \<open>No schemas needed patching\<close>.
\<close>

theorem patch_spec_idempotent:
  assumes round_trip: "\<And>d. L (D d) = Some d"
    and first: "patch_spec L D p w = (Inr v, w1)"
  shows "patch_spec L D p w1 =
           (Inr PNone, w1\<lparr>stdout := stdout w1 @ [''No schemas needed patching''],
                         opens := opens w1 @ [OpenRead p, OpenWrite p]\<rparr>)
     \<and> files (snd (patch_spec L D p w1)) = files w1"
proof -
  from patch_spec_Inr [OF first] obtain f spec spec' patched where
    f: "files w p = Some f" "readable f" "writable f" and
    doc: "patch_document spec = Inr (spec', patched)" and
    w1: "w1 = w\<lparr>files := (files w)(p \<mapsto> f\<lparr>content := D spec'\<rparr>),
             stdout := stdout w @ [summary patched],
             opens := opens w @ [OpenRead p, OpenWrite p]\<rparr>"
    by blast
  let ?f1 = "f\<lparr>content := D spec'\<rparr>"
  from w1 have f1: "files w1 p = Some ?f1" by simp
  from f have r1: "readable ?f1" and wr1: "writable ?f1" by simp_all
  from round_trip have l1: "L (content ?f1) = Some spec'" by simp
  note again = patch_spec_returns [of w1 p ?f1 L spec' spec' "[]" D,
      OF f1 r1 l1 patch_document_idem [OF doc] wr1]
  have same: "(files w1)(p \<mapsto> ?f1\<lparr>content := D spec'\<rparr>) = files w1"
    using f1 by (simp add: fun_upd_idem)
  from again same show ?thesis by (simp add: summary_def)
qed

theorem patch_spec_idempotent_witness:
  "patch_spec (\<lambda>c. c) Some ''api.json'' (one_file_world ''api.json'' (Some mixed_doc))
     = (Inr PNone,
        (one_file_world ''api.json'' (Some mixed_doc_patched))
          \<lparr>stdout := [''Patched schemas: AIIdentificationInput, CardDetailsInput''],
           opens := [OpenRead ''api.json'', OpenWrite ''api.json'']\<rparr>)
   \<and> patch_spec (\<lambda>c. c) Some ''api.json''
        ((one_file_world ''api.json'' (Some mixed_doc_patched))
          \<lparr>stdout := [''Patched schemas: AIIdentificationInput, CardDetailsInput''],
           opens := [OpenRead ''api.json'', OpenWrite ''api.json'']\<rparr>)
     = (Inr PNone,
        (one_file_world ''api.json'' (Some mixed_doc_patched))
          \<lparr>stdout := [''Patched schemas: AIIdentificationInput, CardDetailsInput'',
                      ''No schemas needed patching''],
           opens := [OpenRead ''api.json'', OpenWrite ''api.json'',
                     OpenRead ''api.json'', OpenWrite ''api.json'']\<rparr>)"
proof -
  let ?w = "one_file_world ''api.json'' (Some mixed_doc)"
  let ?w1 = "(one_file_world ''api.json'' (Some mixed_doc_patched))
          \<lparr>stdout := [''Patched schemas: AIIdentificationInput, CardDetailsInput''],
           opens := [OpenRead ''api.json'', OpenWrite ''api.json'']\<rparr>"
  have rt: "\<And>d :: pyval. (\<lambda>c. c) (Some d) = Some d" by simp
  have h: "patch_spec (\<lambda>c. c) Some ''api.json'' ?w = (Inr PNone, ?w1)"
    by (simp add: run_defs mixed_doc_def mixed_doc_patched_def)
  note r = patch_spec_idempotent [where L = "\<lambda>c. c" and D = Some, OF rt h]
  from r h show ?thesis by simp
qed

subsection \<open>C3\<close>

text \<open>
  Claim C3 says that the patch operation returns the list of patched names.
  \<open>patch_spec\<close> is declared \<open>-> None\<close> and has no \<open>return\<close>: on the scenario
  document, where \<open>CardDetailsInput\<close> is patched, its value is \<open>None\<close> and not the
  list holding that name.
\<close>

theorem patch_spec_return_value_counterexample:
  "patch_document scenario_doc =
     Inr (PDict [(''components'', PDict [(''schemas'', PDict [(''CardDetailsInput'',
            PDict [(''type'', PStr ''object'')])])])],
          [''CardDetailsInput''])
   \<and> fst (patch_spec (\<lambda>c. c) Some ''api.json'' (one_file_world ''api.json'' (Some scenario_doc)))
       = Inr PNone
   \<and> fst (patch_spec (\<lambda>c. c) Some ''api.json'' (one_file_world ''api.json'' (Some scenario_doc)))
       \<noteq> Inr (PList [PStr ''CardDetailsInput''])"
  by (simp add: run_defs scenario_doc_def)

text \<open>
  Claim C3, as amended.  Whenever \<open>patch_spec\<close> returns, it returns \<open>None\<close>; the
  names of the patched schemas appear in the summary line only, which is printed after
  the file has been overwritten with the patched document.
\<close>

theorem patch_spec_returns_None:
  assumes "patch_spec L D p w = (Inr v, w')"
  shows "v = PNone \<and>
     (\<exists>f spec spec' patched.
        files w p = Some f \<and> L (content f) = Some spec \<and>
        patch_document spec = Inr (spec', patched) \<and>
        files w' = (files w)(p \<mapsto> f\<lparr>content := D spec'\<rparr>) \<and>
        stdout w' = stdout w @ [summary patched])"
proof -
  from patch_spec_Inr [OF assms] obtain f spec spec' patched where
    "files w p = Some f" "L (content f) = Some spec"
    "patch_document spec = Inr (spec', patched)" "v = PNone"
    "w' = w\<lparr>files := (files w)(p \<mapsto> f\<lparr>content := D spec'\<rparr>),
             stdout := stdout w @ [summary patched],
             opens := opens w @ [OpenRead p, OpenWrite p]\<rparr>"
    by blast
  then show ?thesis by auto
qed

theorem patch_spec_returns_None_witness:
  "patch_spec (\<lambda>c. c) Some ''api.json'' (one_file_world ''api.json'' (Some scenario_doc))
     = (Inr PNone,
        (one_file_world ''api.json''
           (Some (PDict [(''components'', PDict [(''schemas'',
               PDict [(''CardDetailsInput'', PDict [(''type'', PStr ''object'')])])])])))
          \<lparr>stdout := [''Patched schemas: CardDetailsInput''],
           opens := [OpenRead ''api.json'', OpenWrite ''api.json'']\<rparr>)
   \<and> (\<exists>patched.
         stdout ((one_file_world ''api.json''
           (Some (PDict [(''components'', PDict [(''schemas'',
               PDict [(''CardDetailsInput'', PDict [(''type'', PStr ''object'')])])])])))
          \<lparr>stdout := [''Patched schemas: CardDetailsInput''],
           opens := [OpenRead ''api.json'', OpenWrite ''api.json'']\<rparr>)
         = stdout (one_file_world ''api.json'' (Some scenario_doc)) @ [summary patched])"
proof -
  let ?w = "one_file_world ''api.json'' (Some scenario_doc)"
  let ?w' = "(one_file_world ''api.json''
           (Some (PDict [(''components'', PDict [(''schemas'',
               PDict [(''CardDetailsInput'', PDict [(''type'', PStr ''object'')])])])])))
          \<lparr>stdout := [''Patched schemas: CardDetailsInput''],
           opens := [OpenRead ''api.json'', OpenWrite ''api.json'']\<rparr>"
  have h: "patch_spec (\<lambda>c. c) Some ''api.json'' ?w = (Inr PNone, ?w')"
    by (simp add: run_defs scenario_doc_def)
  from patch_spec_returns_None [OF h]
  have "\<exists>patched. stdout ?w' = stdout ?w @ [summary patched]" by blast
  with h show ?thesis by (rule conjI)
qed

subsection \<open>C4\<close>

text \<open>
  Claim C4.  When lines 39 to 47 raise nothing, the document differs from the loaded one
  in the field \<open>additionalProperties\<close> of allow-listed schema entries only: every
  top-level key but \<open>components\<close>, every key of \<open>components\<close> but \<open>schemas\<close>, every
  schema outside the allow-list (whatever its \<open>additionalProperties\<close>) and every other
  field of every schema reads as before; an entry that changed is an allow-listed one
  with exactly that field deleted; and no \<open>dict\<close> on the way gains, loses or reorders
  a key.
\<close>

theorem only_target_fields_change:
  assumes "patch_document spec = Inr (spec', patched)"
  shows "(\<forall>k. k \<noteq> ''components'' \<longrightarrow> py_path spec' [k] = py_path spec [k])
     \<and> (\<forall>k. k \<noteq> ''schemas'' \<longrightarrow>
            py_path spec' [''components'', k] = py_path spec [''components'', k])
     \<and> (\<forall>n. n \<notin> set SCHEMAS_TO_PATCH \<longrightarrow> schema_entry spec' n = schema_entry spec n)
     \<and> (\<forall>n k. k \<noteq> ''additionalProperties'' \<longrightarrow>
            py_path spec' [''components'', ''schemas'', n, k]
              = py_path spec [''components'', ''schemas'', n, k])
     \<and> (\<forall>n. schema_entry spec' n = schema_entry spec n
            \<or> (n \<in> set SCHEMAS_TO_PATCH \<and>
                (\<exists>fs. schema_entry spec n = Some (PDict fs) \<and>
                   schema_entry spec' n = Some (PDict (dict_del fs ''additionalProperties'')))))
     \<and> (\<forall>ks\<in>{[], [''components''], [''components'', ''schemas'']}.
            map_option py_keys (py_path spec' ks) = map_option py_keys (py_path spec ks))"
  using assms
proof (cases rule: patch_document_cases)
  case same
  then show ?thesis by simp
next
  case (object root comps kvs kvs')
  from patch_loop_dict [OF object(4)] have
    keys: "map fst kvs' = map fst kvs" and
    look: "\<And>k. dict_get kvs' k =
          (if k \<in> set SCHEMAS_TO_PATCH then map_option after_patch (dict_get kvs k)
           else dict_get kvs k)"
    by auto
  have entry': "schema_entry spec' n = dict_get kvs' n" for n
    using path_after_store(1) [OF object(2,3), of kvs' n "[]"] object(5)
    by (simp add: schema_entry_def split: option.splits)
  have entry: "schema_entry spec n = dict_get kvs n" for n
    using path_after_store(2) [OF object(2,3), of n "[]"] object(1)
    by (simp add: schema_entry_def split: option.splits)
  have 1: "\<forall>k. k \<noteq> ''components'' \<longrightarrow> py_path spec' [k] = py_path spec [k]"
    using object(1,5) by (simp add: dict_get_dict_set)
  have 2: "\<forall>k. k \<noteq> ''schemas'' \<longrightarrow>
            py_path spec' [''components'', k] = py_path spec [''components'', k]"
    using object(1,2,5) by (simp add: dict_get_dict_set)
  have 3: "\<forall>n. n \<notin> set SCHEMAS_TO_PATCH \<longrightarrow> schema_entry spec' n = schema_entry spec n"
    by (simp add: entry entry' look)
  have 4: "\<forall>n k. k \<noteq> ''additionalProperties'' \<longrightarrow>
            py_path spec' [''components'', ''schemas'', n, k]
              = py_path spec [''components'', ''schemas'', n, k]"
  proof (intro allI impI)
    fix n k :: string
    assume k: "k \<noteq> ''additionalProperties''"
    show "py_path spec' [''components'', ''schemas'', n, k]
              = py_path spec [''components'', ''schemas'', n, k]"
      using path_after_store(1) [OF object(2,3), of kvs' n "[k]"]
        path_after_store(2) [OF object(2,3), of n "[k]"] object(1,5) look [of n]
        after_patch_other_field [OF k, of _ "[]"]
      by (cases "dict_get kvs n") auto
  qed
  have 5: "\<forall>n. schema_entry spec' n = schema_entry spec n
            \<or> (n \<in> set SCHEMAS_TO_PATCH \<and>
                (\<exists>fs. schema_entry spec n = Some (PDict fs) \<and>
                   schema_entry spec' n = Some (PDict (dict_del fs ''additionalProperties''))))"
  proof
    fix n
    show "schema_entry spec' n = schema_entry spec n
            \<or> (n \<in> set SCHEMAS_TO_PATCH \<and>
                (\<exists>fs. schema_entry spec n = Some (PDict fs) \<and>
                   schema_entry spec' n = Some (PDict (dict_del fs ''additionalProperties''))))"
    proof (cases "dict_get kvs n")
      case None
      then show ?thesis by (simp add: entry entry' look)
    next
      case (Some v)
      with after_patch_cases [of v] show ?thesis
        by (auto simp: entry entry' look)
    qed
  qed
  have 6: "\<forall>ks\<in>{[], [''components''], [''components'', ''schemas'']}.
            map_option py_keys (py_path spec' ks) = map_option py_keys (py_path spec ks)"
    using object(1,2,3,5) keys
    by (simp add: py_keys_def keys_dict_set dict_get_dict_set)
  from 1 2 3 4 5 6 show ?thesis by blast
qed

theorem only_target_fields_change_witness:
  "patch_document mixed_doc = Inr (mixed_doc_patched, [''AIIdentificationInput'', ''CardDetailsInput''])
   \<and> schema_entry mixed_doc_patched ''UnrelatedSchema''
       = Some (PDict [(''additionalProperties'', PBool False)])
   \<and> py_path mixed_doc_patched [''components'', ''schemas'', ''CardDetailsInput'', ''type'']
       = Some (PStr ''object'')"
proof -
  note r = only_target_fields_change [OF patch_document_mixed_doc]
  from r have "schema_entry mixed_doc_patched ''UnrelatedSchema''
      = schema_entry mixed_doc ''UnrelatedSchema''"
    by (simp add: SCHEMAS_TO_PATCH_def)
  moreover from r have "py_path mixed_doc_patched [''components'', ''schemas'', ''CardDetailsInput'', ''type'']
      = py_path mixed_doc [''components'', ''schemas'', ''CardDetailsInput'', ''type'']"
    by simp
  ultimately show ?thesis
    using patch_document_mixed_doc
    by (simp add: mixed_doc_def schema_entry_def dict_get_def)
qed

subsection \<open>C5\<close>

text \<open>
  Claim C5.  Whenever \<open>patch_spec\<close> returns, the one line it printed is
  \<open>Patched schemas:\<close> followed by the allow-listed names, in allow-list order and
  joined by a comma and a space, whose \<open>additionalProperties\<close> is in the loaded document
  and not in the written one; when there is no such name the line is
  \<open>No schemas needed patching\<close>.
\<close>

theorem summary_lists_removed_fields:
  assumes "patch_spec L D p w = (Inr v, w')"
  shows "\<exists>f spec spec' patched.
     files w p = Some f \<and> L (content f) = Some spec \<and>
     patch_document spec = Inr (spec', patched) \<and>
     files w' p = Some (f\<lparr>content := D spec'\<rparr>) \<and>
     patched = filter (\<lambda>n. target_field spec n \<noteq> None \<and> target_field spec' n = None)
                 SCHEMAS_TO_PATCH \<and>
     stdout w' = stdout w @
       [if patched = [] then ''No schemas needed patching''
        else ''Patched schemas: '' @ join '', '' patched]"
proof -
  from patch_spec_Inr [OF assms] obtain f spec spec' patched where
    f: "files w p = Some f" "L (content f) = Some spec" and
    doc: "patch_document spec = Inr (spec', patched)" and
    w': "w' = w\<lparr>files := (files w)(p \<mapsto> f\<lparr>content := D spec'\<rparr>),
             stdout := stdout w @ [summary patched],
             opens := opens w @ [OpenRead p, OpenWrite p]\<rparr>"
    by blast
  from w' have "files w' p = Some (f\<lparr>content := D spec'\<rparr>)"
    and "stdout w' = stdout w @
       [if patched = [] then ''No schemas needed patching''
        else ''Patched schemas: '' @ join '', '' patched]"
    by (simp_all add: summary_def)
  with f doc patched_names [OF doc] show ?thesis by blast
qed

theorem summary_lists_removed_fields_witness:
  "patch_spec (\<lambda>c. c) Some ''api.json'' (one_file_world ''api.json'' (Some mixed_doc))
     = (Inr PNone,
        (one_file_world ''api.json'' (Some mixed_doc_patched))
          \<lparr>stdout := [''Patched schemas: AIIdentificationInput, CardDetailsInput''],
           opens := [OpenRead ''api.json'', OpenWrite ''api.json'']\<rparr>)
   \<and> filter (\<lambda>n. target_field mixed_doc n \<noteq> None \<and> target_field mixed_doc_patched n = None)
        SCHEMAS_TO_PATCH = [''AIIdentificationInput'', ''CardDetailsInput'']"
proof -
  let ?w = "one_file_world ''api.json'' (Some mixed_doc)"
  let ?w' = "(one_file_world ''api.json'' (Some mixed_doc_patched))
          \<lparr>stdout := [''Patched schemas: AIIdentificationInput, CardDetailsInput''],
           opens := [OpenRead ''api.json'', OpenWrite ''api.json'']\<rparr>"
  have h: "patch_spec (\<lambda>c. c) Some ''api.json'' ?w = (Inr PNone, ?w')"
    by (simp add: run_defs mixed_doc_def mixed_doc_patched_def)
  from summary_lists_removed_fields [OF h] obtain f spec spec' patched where
    "files ?w ''api.json'' = Some f" "content f = Some spec"
    "patch_document spec = Inr (spec', patched)"
    "patched = filter (\<lambda>n. target_field spec n \<noteq> None \<and> target_field spec' n = None)
                 SCHEMAS_TO_PATCH"
    by blast
  then have "filter (\<lambda>n. target_field mixed_doc n \<noteq> None \<and> target_field mixed_doc_patched n = None)
        SCHEMAS_TO_PATCH = [''AIIdentificationInput'', ''CardDetailsInput'']"
    using patch_document_mixed_doc by (auto simp: one_file_world_def)
  with h show ?thesis by (rule conjI)
qed

subsection \<open>C6\<close>

text \<open>
  Claim C6.  When \<open>components\<close> is absent, or \<open>schemas\<close> is absent from it, or
  \<open>schemas\<close> is an object with none of the allow-listed names, the process ends with
  status 0: it patches nothing, writes the loaded document back as it is, and prints
  \<open>No schemas needed patching\<close>.
\<close>

theorem no_allow_listed_schema:
  assumes "files w p = Some f" and "readable f" and "writable f"
    and "L (content f) = Some (PDict root)"
    and "dict_get root ''components'' = None
      \<or> (\<exists>comps. dict_get root ''components'' = Some (PDict comps) \<and>
           (dict_get comps ''schemas'' = None
            \<or> (\<exists>kvs. dict_get comps ''schemas'' = Some (PDict kvs) \<and>
                 (\<forall>n\<in>set SCHEMAS_TO_PATCH. dict_get kvs n = None))))"
  shows "main L D [prog, p] w =
     (0, w\<lparr>files := (files w)(p \<mapsto> f\<lparr>content := D (PDict root)\<rparr>),
           stdout := stdout w @ [''No schemas needed patching''],
           opens := opens w @ [OpenRead p, OpenWrite p]\<rparr>)"
proof -
  from assms(5) consider
      "dict_get root ''components'' = None"
    | comps where "dict_get root ''components'' = Some (PDict comps)"
        "dict_get comps ''schemas'' = None"
    | comps kvs where "dict_get root ''components'' = Some (PDict comps)"
        "dict_get comps ''schemas'' = Some (PDict kvs)"
        "\<forall>n\<in>set SCHEMAS_TO_PATCH. dict_get kvs n = None"
    by (elim disjE exE conjE) auto
  then have "patch_document (PDict root) = Inr (PDict root, [])"
  proof cases
    case 1
    then show ?thesis by (rule patch_document_no_components)
  next
    case 2
    then show ?thesis by (rule patch_document_no_schemas)
  next
    case 3
    then show ?thesis by (intro patch_document_no_names) auto
  qed
  from patch_spec_returns [of w p f L "PDict root" "PDict root" "[]" D, OF assms(1,2,4) this assms(3)]
  show ?thesis by (simp add: main_run summary_def)
qed

theorem no_allow_listed_schema_witness:
  "main (\<lambda>c. c) Some [''patch-openapi-spec.py'', ''api.json'']
     (one_file_world ''api.json'' (Some (PDict [(''components'', PDict [(''schemas'',
        PDict [(''UnrelatedSchema'', PDict [(''additionalProperties'', PBool False)])])])])))
   = (0, \<lparr>files = [''api.json'' \<mapsto> \<lparr>readable = True, writable = True,
             content = Some (PDict [(''components'', PDict [(''schemas'',
               PDict [(''UnrelatedSchema'', PDict [(''additionalProperties'', PBool False)])])])])\<rparr>],
          stdout = [''No schemas needed patching''],
          opens = [OpenRead ''api.json'', OpenWrite ''api.json'']\<rparr>)"
proof -
  let ?kvs = "[(''UnrelatedSchema'', PDict [(''additionalProperties'', PBool False)])]"
  let ?comps = "[(''schemas'', PDict ?kvs)]"
  let ?root = "[(''components'', PDict ?comps)]"
  let ?w = "one_file_world ''api.json'' (Some (PDict ?root))"
  let ?f = "\<lparr>readable = True, writable = True, content = Some (PDict ?root)\<rparr>"
  have 1: "files ?w ''api.json'' = Some ?f" by (simp add: one_file_world_def)
  have 2: "readable ?f" and 3: "writable ?f" by simp_all
  have 4: "(\<lambda>c. c) (content ?f) = Some (PDict ?root)" by simp
  have 5: "dict_get ?root ''components'' = None
      \<or> (\<exists>comps. dict_get ?root ''components'' = Some (PDict comps) \<and>
           (dict_get comps ''schemas'' = None
            \<or> (\<exists>kvs. dict_get comps ''schemas'' = Some (PDict kvs) \<and>
                 (\<forall>n\<in>set SCHEMAS_TO_PATCH. dict_get kvs n = None))))"
    by (simp add: dict_get_def SCHEMAS_TO_PATCH_def)
  note r = no_allow_listed_schema [where L = "\<lambda>c. c" and D = Some and w = ?w and f = ?f
      and prog = "''patch-openapi-spec.py''", OF 1 2 3 4 5]
  from r show ?thesis by (simp add: one_file_world_def)
qed

subsection \<open>C7\<close>

text \<open>
  Claim C7 says that a \<open>components\<close> or \<open>schemas\<close> entry that is present but not
  an object is ignored like a missing one.  The script has no such tolerance: at a
  document whose \<open>components\<close> is an array, \<open>.get\<close> raises \<open>AttributeError\<close> and
  the process exits with status 1.
\<close>

theorem malformed_components_counterexample:
  "patch_spec (\<lambda>c. c) Some ''api.json''
     (one_file_world ''api.json'' (Some (PDict [(''components'', PList [])])))
   = (Inl AttributeError,
      (one_file_world ''api.json'' (Some (PDict [(''components'', PList [])])))
        \<lparr>opens := [OpenRead ''api.json'']\<rparr>)
   \<and> fst (main (\<lambda>c. c) Some [''patch-openapi-spec.py'', ''api.json'']
     (one_file_world ''api.json'' (Some (PDict [(''components'', PList [])])))) = 1"
  by (simp add: run_defs)

text \<open>
  Claim C7, as amended, for a file that loads to a root object.  When \<open>components\<close> is
  present and not an object, the process ends with an uncaught exception, status 1,
  and nothing is written.  When \<open>schemas\<close> is present and not an object, it is ignored
  only if it is a string or an array in which no allow-listed name occurs (in a string:
  as a substring); then the document is written back as it is and
  \<open>No schemas needed patching\<close> is printed.  Any other malformed \<open>schemas\<close> ends the
  process with status 1 and nothing is written.
\<close>

theorem malformed_components_or_schemas:
  assumes "files w p = Some f" and "readable f" and "writable f"
    and "L (content f) = Some (PDict root)"
  shows "(\<forall>cv. dict_get root ''components'' = Some cv \<and> (\<forall>kvs. cv \<noteq> PDict kvs) \<longrightarrow>
            main L D [prog, p] w = (1, w\<lparr>opens := opens w @ [OpenRead p]\<rparr>))
     \<and> (\<forall>comps sv. dict_get root ''components'' = Some (PDict comps) \<and>
            dict_get comps ''schemas'' = Some sv \<and> (\<forall>kvs. sv \<noteq> PDict kvs) \<longrightarrow>
            main L D [prog, p] w =
              (if \<forall>n\<in>set SCHEMAS_TO_PATCH. py_in n sv = Inr False
               then (0, w\<lparr>files := (files w)(p \<mapsto> f\<lparr>content := D (PDict root)\<rparr>),
                          stdout := stdout w @ [''No schemas needed patching''],
                          opens := opens w @ [OpenRead p, OpenWrite p]\<rparr>)
               else (1, w\<lparr>opens := opens w @ [OpenRead p]\<rparr>)))"
proof (intro conjI allI impI)
  fix cv
  assume "dict_get root ''components'' = Some cv \<and> (\<forall>kvs. cv \<noteq> PDict kvs)"
  then have "patch_document (PDict root) = Inl AttributeError"
    by (simp add: patch_document_bad_components)
  with assms show "main L D [prog, p] w = (1, w\<lparr>opens := opens w @ [OpenRead p]\<rparr>)"
    by (simp add: main_run patch_spec_raises)
next
  fix comps sv
  assume a: "dict_get root ''components'' = Some (PDict comps) \<and>
            dict_get comps ''schemas'' = Some sv \<and> (\<forall>kvs. sv \<noteq> PDict kvs)"
  then have doc: "patch_document (PDict root) =
     (if \<forall>n\<in>set SCHEMAS_TO_PATCH. py_in n sv = Inr False
      then Inr (PDict root, []) else Inl TypeError)"
    by (intro patch_document_bad_schemas) auto
  show "main L D [prog, p] w =
              (if \<forall>n\<in>set SCHEMAS_TO_PATCH. py_in n sv = Inr False
               then (0, w\<lparr>files := (files w)(p \<mapsto> f\<lparr>content := D (PDict root)\<rparr>),
                          stdout := stdout w @ [''No schemas needed patching''],
                          opens := opens w @ [OpenRead p, OpenWrite p]\<rparr>)
               else (1, w\<lparr>opens := opens w @ [OpenRead p]\<rparr>))"
  proof (cases "\<forall>n\<in>set SCHEMAS_TO_PATCH. py_in n sv = Inr False")
    case True
    with doc have "patch_document (PDict root) = Inr (PDict root, [])" by simp
    from patch_spec_returns [of w p f L "PDict root" "PDict root" "[]" D, OF assms(1,2,4) this assms(3)]
      True show ?thesis by (simp add: main_run summary_def)
  next
    case False
    with doc have "patch_document (PDict root) = Inl TypeError" by simp
    from patch_spec_raises [of w p f L "PDict root" TypeError D, OF assms(1,2,4) this]
      False show ?thesis by (simp add: main_run)
  qed
qed

theorem malformed_components_or_schemas_witness:
  "main (\<lambda>c. c) Some [''patch-openapi-spec.py'', ''api.json'']
     (one_file_world ''api.json'' (Some (PDict [(''components'', PDict [(''schemas'',
        PStr ''see CardDetailsInput'')])])))
   = (1, (one_file_world ''api.json'' (Some (PDict [(''components'', PDict [(''schemas'',
        PStr ''see CardDetailsInput'')])])))\<lparr>opens := [OpenRead ''api.json'']\<rparr>)
   \<and> main (\<lambda>c. c) Some [''patch-openapi-spec.py'', ''api.json'']
     (one_file_world ''api.json'' (Some (PDict [(''components'', PDict [(''schemas'',
        PList [PStr ''CardDetails''])])])))
   = (0, \<lparr>files = [''api.json'' \<mapsto> \<lparr>readable = True, writable = True,
             content = Some (PDict [(''components'', PDict [(''schemas'',
               PList [PStr ''CardDetails''])])])\<rparr>],
          stdout = [''No schemas needed patching''],
          opens = [OpenRead ''api.json'', OpenWrite ''api.json'']\<rparr>)"
proof -
  let ?bad = "[(''components'', PDict [(''schemas'', PStr ''see CardDetailsInput'')])]"
  let ?ok = "[(''components'', PDict [(''schemas'', PList [PStr ''CardDetails''])])]"
  let ?fb = "\<lparr>readable = True, writable = True, content = Some (PDict ?bad)\<rparr>"
  let ?fo = "\<lparr>readable = True, writable = True, content = Some (PDict ?ok)\<rparr>"
  have b1: "files (one_file_world ''api.json'' (Some (PDict ?bad))) ''api.json'' = Some ?fb"
    and o1: "files (one_file_world ''api.json'' (Some (PDict ?ok))) ''api.json'' = Some ?fo"
    by (simp_all add: one_file_world_def)
  have b2: "readable ?fb" and b3: "writable ?fb" and b4: "(\<lambda>c. c) (content ?fb) = Some (PDict ?bad)"
    and o2: "readable ?fo" and o3: "writable ?fo" and o4: "(\<lambda>c. c) (content ?fo) = Some (PDict ?ok)"
    by simp_all
  note rb = malformed_components_or_schemas [where L = "\<lambda>c. c" and D = Some and f = ?fb
      and prog = "''patch-openapi-spec.py''", OF b1 b2 b3 b4, THEN conjunct2, rule_format,
      of "[(''schemas'', PStr ''see CardDetailsInput'')]" "PStr ''see CardDetailsInput''"]
  note ro = malformed_components_or_schemas [where L = "\<lambda>c. c" and D = Some and f = ?fo
      and prog = "''patch-openapi-spec.py''", OF o1 o2 o3 o4, THEN conjunct2, rule_format,
      of "[(''schemas'', PList [PStr ''CardDetails''])]" "PList [PStr ''CardDetails'']"]
  from rb ro show ?thesis
    by (simp add: one_file_world_def dict_get_def SCHEMAS_TO_PATCH_def)
qed

subsection \<open>C8\<close>

text \<open>
  Claim C8.  When the process is started with an argument count other than one (the
  program name not counted), it prints the usage line on standard output and exits with
  status 1; it opens no file and every file is as it was.
\<close>

theorem main_wrong_argument_count:
  assumes "length argv \<noteq> 2"
  shows "main L D argv w =
           (1, w\<lparr>stdout := stdout w @ [''Usage: patch-openapi-spec.py <path-to-openapi.json>'']\<rparr>)
         \<and> files (snd (main L D argv w)) = files w
         \<and> opens (snd (main L D argv w)) = opens w"
  using assms by (simp add: main_def print_def)

theorem main_wrong_argument_count_witness:
  "length [''patch-openapi-spec.py'', ''a.json'', ''b.json''] \<noteq> 2
   \<and> main (\<lambda>c. c) Some [''patch-openapi-spec.py'', ''a.json'', ''b.json'']
        (one_file_world ''a.json'' (Some (PDict []))) =
      (1, (one_file_world ''a.json'' (Some (PDict [])))
            \<lparr>stdout := [''Usage: patch-openapi-spec.py <path-to-openapi.json>'']\<rparr>)"
proof -
  have h: "length [''patch-openapi-spec.py'', ''a.json'', ''b.json''] \<noteq> 2" by simp
  from main_wrong_argument_count [OF h, of "\<lambda>c. c" Some "one_file_world ''a.json'' (Some (PDict []))"]
  show ?thesis by (simp add: one_file_world_def)
qed

subsection \<open>C9\<close>

text \<open>
  Claim C9.  When the input file is missing, may not be read, or does not parse, the
  process ends with an uncaught exception and status 1, and nothing is written: the only
  call of \<open>open\<close> is the one for reading, and every file is as it was.
\<close>

theorem load_failure_writes_nothing:
  assumes "files w p = None
     \<or> (\<exists>f. files w p = Some f \<and> (\<not> readable f \<or> L (content f) = None))"
  shows "(\<exists>e. patch_spec L D p w = (Inl e, w\<lparr>opens := opens w @ [OpenRead p]\<rparr>))
     \<and> main L D [prog, p] w = (1, w\<lparr>opens := opens w @ [OpenRead p]\<rparr>)
     \<and> files (snd (main L D [prog, p] w)) = files w
     \<and> OpenWrite p \<notin> set (drop (length (opens w)) (opens (snd (main L D [prog, p] w))))"
proof -
  have "\<exists>e. patch_spec L D p w = (Inl e, w\<lparr>opens := opens w @ [OpenRead p]\<rparr>)"
  proof (cases "files w p")
    case None
    then show ?thesis by (simp add: patch_spec_no_file)
  next
    case (Some f)
    with assms have "\<not> readable f \<or> L (content f) = None" by simp
    with Some show ?thesis
      by (cases "readable f") (simp_all add: patch_spec_unreadable patch_spec_unparseable)
  qed
  then show ?thesis by (auto simp: main_run)
qed

theorem load_failure_writes_nothing_witness:
  "(\<exists>f. files (one_file_world ''api.json'' None) ''api.json'' = Some f \<and> (\<lambda>c. c) (content f) = None)
   \<and> main (\<lambda>c. c) Some [''patch-openapi-spec.py'', ''api.json''] (one_file_world ''api.json'' None)
       = (1, (one_file_world ''api.json'' None)\<lparr>opens := [OpenRead ''api.json'']\<rparr>)"
proof -
  have h: "files (one_file_world ''api.json'' None) ''api.json'' = None
     \<or> (\<exists>f. files (one_file_world ''api.json'' None) ''api.json'' = Some f \<and>
           (\<not> readable f \<or> (\<lambda>c. c) (content f) = None))"
    by (simp add: one_file_world_def)
  from load_failure_writes_nothing [OF h, of Some "''patch-openapi-spec.py''"]
  show ?thesis by (simp add: one_file_world_def)
qed

subsection \<open>C10\<close>

text \<open>
  Claim C10.  When \<open>components.schemas\<close> holds an allow-listed name whose entry is not
  an object, the entry is not skipped: \<open>schema.get\<close> raises \<open>AttributeError\<close>, the
  process ends with status 1, and the file is never opened for writing.
\<close>

theorem non_object_entry_fails:
  assumes "files w p = Some f" and "readable f" and "L (content f) = Some spec"
    and "n \<in> set SCHEMAS_TO_PATCH" and "schema_entry spec n = Some v"
    and "\<forall>fs. v \<noteq> PDict fs"
  shows "patch_spec L D p w = (Inl AttributeError, w\<lparr>opens := opens w @ [OpenRead p]\<rparr>)
     \<and> main L D [prog, p] w = (1, w\<lparr>opens := opens w @ [OpenRead p]\<rparr>)"
proof -
  from schema_entry_SomeD [OF assms(5)] obtain root comps kvs where
    "spec = PDict root" "dict_get root ''components'' = Some (PDict comps)"
    "dict_get comps ''schemas'' = Some (PDict kvs)" "dict_get kvs n = Some v"
    by blast
  with assms(4,6) have "patch_document spec = Inl AttributeError"
    by (simp add: patch_document_schemas patch_loop_bad_entry)
  with assms(1-3) have "patch_spec L D p w = (Inl AttributeError, w\<lparr>opens := opens w @ [OpenRead p]\<rparr>)"
    by (rule patch_spec_raises)
  then show ?thesis by (simp add: main_run)
qed

theorem non_object_entry_fails_witness:
  "schema_entry (PDict [(''components'', PDict [(''schemas'',
       PDict [(''CardDetailsInput'', PBool False)])])]) ''CardDetailsInput'' = Some (PBool False)
   \<and> main (\<lambda>c. c) Some [''patch-openapi-spec.py'', ''api.json'']
        (one_file_world ''api.json'' (Some (PDict [(''components'', PDict [(''schemas'',
           PDict [(''CardDetailsInput'', PBool False)])])])))
     = (1, (one_file_world ''api.json'' (Some (PDict [(''components'', PDict [(''schemas'',
           PDict [(''CardDetailsInput'', PBool False)])])])))\<lparr>opens := [OpenRead ''api.json'']\<rparr>)"
proof -
  let ?spec = "PDict [(''components'', PDict [(''schemas'',
       PDict [(''CardDetailsInput'', PBool False)])])]"
  let ?w = "one_file_world ''api.json'' (Some ?spec)"
  let ?f = "\<lparr>readable = True, writable = True, content = Some ?spec\<rparr>"
  have 1: "files ?w ''api.json'' = Some ?f" by (simp add: one_file_world_def)
  have 2: "readable ?f" by simp
  have 3: "(\<lambda>c. c) (content ?f) = Some ?spec" by simp
  have 4: "''CardDetailsInput'' \<in> set SCHEMAS_TO_PATCH" by (simp add: SCHEMAS_TO_PATCH_def)
  have 5: "schema_entry ?spec ''CardDetailsInput'' = Some (PBool False)"
    by (simp add: schema_entry_def dict_get_def)
  have 6: "\<forall>fs. PBool False \<noteq> PDict fs" by simp
  note r = non_object_entry_fails [where L = "\<lambda>c. c" and D = Some and w = ?w and f = ?f
      and prog = "''patch-openapi-spec.py''", OF 1 2 3 4 5 6]
  from r 5 show ?thesis by (simp add: one_file_world_def)
qed

end
